theory Spec2Isabelle
  imports Main "HOL-Library.Word"
begin

section \<open>Files, directories and streams\<close>

text \<open>
  The class template DataLake of main.cpp keeps its records in files and reads them back
  through std::ifstream. The file system is a value of the model: \<open>files\<close> maps a path to
  the bytes of the file that std::ifstream opens there (\<open>None\<close>: the stream does not open),
  and \<open>dirs\<close> maps a directory to the entries std::filesystem::directory_iterator
  yields for it, in the order it yields them (\<open>None\<close>: the iterator's constructor throws
  std::filesystem::filesystem_error). Permissions, and errors in the middle of an
  enumeration, are not modelled.
\<close>

type_synonym byte = "8 word"

type_synonym fpath = string

type_synonym streamoff = int

record dir_entry =
  entry_path :: fpath
  is_regular_file :: bool

record filesystem =
  files :: "fpath \<rightharpoonup> byte list"
  dirs :: "fpath \<rightharpoonup> dir_entry list"

datatype error = filesystem_error

text \<open>
  \<open>std::ofstream out(p, std::ios::app | std::ios_base::binary)\<close>: the stream opens unless
  the path is empty or names a directory; a file that does not exist yet is created
  empty. The result is the content the written bytes are appended to. The model has no
  relation between a path and its directory: a created file is not added to a listing.
\<close>

definition open_app :: "filesystem \<Rightarrow> fpath \<Rightarrow> byte list option" where
  "open_app fs p =
     (if p = [] then None
      else if dirs fs p \<noteq> None then None
      else (case files fs p of None \<Rightarrow> Some [] | Some bs \<Rightarrow> Some bs))"

text \<open>
  \<open>in.seekg(offset)\<close> on a freshly opened std::ifstream: what the stream has left to
  read. A negative offset makes the seek fail, and a failed stream yields no bytes; an
  offset past the end of the file leaves nothing to read.
\<close>

definition seekg :: "byte list \<Rightarrow> streamoff \<Rightarrow> byte list" where
  "seekg bs offset = (if offset < 0 then [] else drop (nat offset) bs)"

section \<open>The template parameters\<close>

text \<open>
  What the template leaves open is a parameter of the model.
  \<open>insertPolicy(out, value)\<close> is the bytes it writes. \<open>extractPolicy(in, value)\<close>
  takes the bytes from the stream's position to the end of the file and the object it
  overwrites, and gives whether the stream is good afterwards (the loops' condition), the
  object afterwards and the number of bytes it consumed; \<open>in.tellg()\<close> after a good
  extraction is the old position plus that number (a good extraction is taken to leave
  the stream without its end-of-file flag, so that \<open>tellg\<close> does not fail).
  \<open>getKey\<close> is \<open>value.getKey()\<close>, and \<open>Value_init\<close> the object that the declaration
  \<open>Value value;\<close> constructs.

  \<open>insert\<close> calls \<open>m_index(key, value)\<close>, with the value where the index (a map from a
  key to a vector of std::streamoff) holds an offset: \<open>Value_as_streamoff\<close> is the
  conversion of a Value to std::streamoff that this call needs.
\<close>

record ('k, 'v) policies =
  insertPolicy :: "'v \<Rightarrow> byte list"
  extractPolicy :: "byte list \<Rightarrow> 'v \<Rightarrow> bool \<times> 'v \<times> nat"
  getKey :: "'v \<Rightarrow> 'k"
  Value_init :: "'v"
  Value_as_streamoff :: "'v \<Rightarrow> streamoff"

section \<open>The class DataLake\<close>

text \<open>The data members of the class (main.cpp, lines 21 to 41), the two policies apart.\<close>

record ('k, 'v) DataLake =
  path :: fpath
  map_member :: "'k \<rightharpoonup> 'v"
  m_index :: "'k \<rightharpoonup> streamoff list"
  m_filename :: fpath
  m_directory :: fpath

text \<open>
  Modelled from the spec: the call operator of the index, \<open>m_index(key, offset)\<close>.
  std::map has none, so the source does not say what the call does; section 4.2 of the
  spec gives it as \<open>record(key, location)\<close>, which "appends location to the key's list,
  creating the list if absent".
\<close>

definition m_index_call ::
  "('k \<rightharpoonup> streamoff list) \<Rightarrow> 'k \<Rightarrow> streamoff \<Rightarrow> ('k \<rightharpoonup> streamoff list)" where
  "m_index_call idx key offset =
     idx(key \<mapsto> (case idx key of None \<Rightarrow> [] | Some offsets \<Rightarrow> offsets) @ [offset])"

text \<open>
  \<open>map.insert({value.getKey(), value})\<close> of std::unordered_map: a key that is already in
  the map keeps its value.
\<close>

definition map_insert :: "('k \<rightharpoonup> 'v) \<Rightarrow> 'k \<Rightarrow> 'v \<Rightarrow> ('k \<rightharpoonup> 'v)" where
  "map_insert m key value = (case m key of None \<Rightarrow> m(key \<mapsto> value) | Some old \<Rightarrow> m)"

subsection \<open>The constructor (lines 44 to 52)\<close>

text \<open>
  The loop \<open>while (extractPolicy(file, value)) map.insert(...)\<close>, from stream position
  \<open>pos\<close>. Nothing in the class makes the loop end: an extraction policy that stays good
  without reading keeps it running, and then the result is \<open>None\<close>.
\<close>

partial_function (option) DataLake_loop ::
  "('k, 'v) policies \<Rightarrow> byte list \<Rightarrow> nat \<Rightarrow> 'v \<Rightarrow> ('k \<rightharpoonup> 'v) \<Rightarrow> ('k \<rightharpoonup> 'v) option" where
  "DataLake_loop P bs pos value m =
     (case extractPolicy P (drop pos bs) value of
        (good, value', n) \<Rightarrow>
          if good then DataLake_loop P bs (pos + n) value' (map_insert m (getKey P value') value')
          else Some m)"

text \<open>
  The members before the constructor's body runs: \<open>path\<close> from the initialiser list,
  the others default-constructed (empty maps, empty paths).
\<close>

definition DataLake_init :: "fpath \<Rightarrow> ('k, 'v) DataLake" where
  "DataLake_init p =
     \<lparr>path = p, map_member = Map.empty, m_index = Map.empty,
      m_filename = [], m_directory = []\<rparr>"

definition DataLake_new ::
  "('k, 'v) policies \<Rightarrow> filesystem \<Rightarrow> fpath \<Rightarrow> ('k, 'v) DataLake option" where
  "DataLake_new P fs p =
     (case files fs p of
        None \<Rightarrow> Some (DataLake_init p)
      | Some bs \<Rightarrow>
          (case DataLake_loop P bs 0 (Value_init P) Map.empty of
             None \<Rightarrow> None
           | Some m \<Rightarrow> Some ((DataLake_init p)\<lparr>map_member := m\<rparr>)))"

subsection \<open>insert (lines 55 to 61)\<close>

definition insert_value ::
  "('k, 'v) policies \<Rightarrow> filesystem \<Rightarrow> ('k, 'v) DataLake \<Rightarrow> 'k \<Rightarrow> 'v
     \<Rightarrow> filesystem \<times> ('k, 'v) DataLake" where
  "insert_value P fs this key value =
     (case open_app fs (m_filename this) of
        None \<Rightarrow> (fs, this)
      | Some bs \<Rightarrow>
          (fs\<lparr>files := (files fs)(m_filename this \<mapsto> bs @ insertPolicy P value)\<rparr>,
           this\<lparr>m_index := m_index_call (m_index this) key (Value_as_streamoff P value)\<rparr>))"

subsection \<open>operator[] (lines 63 to 78)\<close>

text \<open>
  The loop over the offsets of the key. Every offset is read in the file \<open>m_filename\<close>;
  the result of \<open>extractPolicy\<close> is not tested, so the object is pushed whether the
  extraction was good or not.
\<close>

fun operator_index_loop ::
  "('k, 'v) policies \<Rightarrow> filesystem \<Rightarrow> fpath \<Rightarrow> streamoff list \<Rightarrow> 'v list \<Rightarrow> 'v list" where
  "operator_index_loop P fs fname [] values = values"
| "operator_index_loop P fs fname (offset # offsets) values =
     (case files fs fname of
        None \<Rightarrow> operator_index_loop P fs fname offsets values
      | Some bs \<Rightarrow>
          (case extractPolicy P (seekg bs offset) (Value_init P) of
             (good, value, n) \<Rightarrow> operator_index_loop P fs fname offsets (values @ [value])))"

definition operator_index ::
  "('k, 'v) policies \<Rightarrow> filesystem \<Rightarrow> ('k, 'v) DataLake \<Rightarrow> 'k \<Rightarrow> 'v list" where
  "operator_index P fs this key =
     (case m_index this key of
        None \<Rightarrow> []
      | Some offsets \<Rightarrow> operator_index_loop P fs (m_filename this) offsets [])"

subsection \<open>remove and clear_index (lines 80 to 89)\<close>

definition remove_key :: "('k, 'v) DataLake \<Rightarrow> 'k \<Rightarrow> ('k, 'v) DataLake" where
  "remove_key this key =
     (case m_index this key of
        None \<Rightarrow> this
      | Some offsets \<Rightarrow> this\<lparr>m_index := (m_index this)(key := None)\<rparr>)"

definition clear_index :: "('k, 'v) DataLake \<Rightarrow> ('k, 'v) DataLake" where
  "clear_index this = this\<lparr>m_index := Map.empty\<rparr>"

subsection \<open>index_directory (lines 91 to 105)\<close>

text \<open>
  The inner loop \<open>while (extractPolicy(in, value)) m_index(value.getKey(), in.tellg())\<close>
  from stream position \<open>pos\<close>: \<open>in.tellg()\<close> is read after the extraction. As in the
  constructor, the loop need not end.
\<close>

partial_function (option) index_directory_loop ::
  "('k, 'v) policies \<Rightarrow> byte list \<Rightarrow> nat \<Rightarrow> 'v \<Rightarrow> ('k \<rightharpoonup> streamoff list)
     \<Rightarrow> ('k \<rightharpoonup> streamoff list) option" where
  "index_directory_loop P bs pos value idx =
     (case extractPolicy P (drop pos bs) value of
        (good, value', n) \<Rightarrow>
          if good
          then index_directory_loop P bs (pos + n) value'
                 (m_index_call idx (getKey P value') (int (pos + n)))
          else Some idx)"

text \<open>The loop over the directory's entries.\<close>

fun index_directory_entries ::
  "('k, 'v) policies \<Rightarrow> filesystem \<Rightarrow> dir_entry list \<Rightarrow> ('k, 'v) DataLake
     \<Rightarrow> ('k, 'v) DataLake option" where
  "index_directory_entries P fs [] this = Some this"
| "index_directory_entries P fs (entry # entries) this =
     (if is_regular_file entry then
        (case files fs (entry_path entry) of
           None \<Rightarrow> index_directory_entries P fs entries (this\<lparr>m_filename := entry_path entry\<rparr>)
         | Some bs \<Rightarrow>
             (case index_directory_loop P bs 0 (Value_init P) (m_index this) of
                None \<Rightarrow> None
              | Some idx \<Rightarrow>
                  index_directory_entries P fs entries
                    (this\<lparr>m_filename := entry_path entry, m_index := idx\<rparr>)))
      else index_directory_entries P fs entries this)"

text \<open>
  The result is \<open>None\<close> when the call does not return, \<open>Inl\<close> with the lake as the
  exception leaves it when the directory cannot be enumerated, and \<open>Inr\<close> with the lake
  after the call otherwise.
\<close>

definition index_directory ::
  "('k, 'v) policies \<Rightarrow> filesystem \<Rightarrow> fpath \<Rightarrow> ('k, 'v) DataLake
     \<Rightarrow> (error \<times> ('k, 'v) DataLake + ('k, 'v) DataLake) option" where
  "index_directory P fs d this =
     (case dirs fs d of
        None \<Rightarrow> Some (Inl (filesystem_error, this\<lparr>m_directory := d\<rparr>))
      | Some entries \<Rightarrow>
          (case index_directory_entries P fs entries (this\<lparr>m_directory := d\<rparr>) of
             None \<Rightarrow> None
           | Some this' \<Rightarrow> Some (Inr this')))"

subsection \<open>getOffset (lines 109 to 115)\<close>

text \<open>
  \<open>it->second.back()\<close> on an empty vector is undefined in C++: the result is \<open>None\<close>
  there. For a key that is not in the index the result is the offset -1.
\<close>

definition getOffset :: "('k, 'v) DataLake \<Rightarrow> 'k \<Rightarrow> streamoff option" where
  "getOffset this key =
     (case m_index this key of
        None \<Rightarrow> Some (- 1)
      | Some offsets \<Rightarrow> (if offsets = [] then None else Some (last offsets)))"

section \<open>What a scan reads\<close>

text \<open>
  The objects that successive extractions produce from stream position \<open>pos\<close>, each with
  the stream position after it, up to the first extraction that is not good. At most
  \<open>fuel\<close> extractions are made: the result is \<open>None\<close> when the fuel runs out before
  an extraction fails.
\<close>

fun extracted ::
  "nat \<Rightarrow> ('k, 'v) policies \<Rightarrow> byte list \<Rightarrow> nat \<Rightarrow> 'v \<Rightarrow> ('v \<times> nat) list option" where
  "extracted 0 P bs pos value = None"
| "extracted (Suc fuel) P bs pos value =
     (case extractPolicy P (drop pos bs) value of
        (good, value', n) \<Rightarrow>
          if good
          then (case extracted fuel P bs (pos + n) value' of
                  None \<Rightarrow> None
                | Some rs \<Rightarrow> Some ((value', pos + n) # rs))
          else Some [])"

text \<open>
  The pairs of a key and a stream position that the files of a directory listing give,
  file after file in the order of the listing: entries that are not regular files, and
  files that do not open, give none.
\<close>

fun scanned ::
  "nat \<Rightarrow> ('k, 'v) policies \<Rightarrow> filesystem \<Rightarrow> dir_entry list \<Rightarrow> ('k \<times> streamoff) list option" where
  "scanned fuel P fs [] = Some []"
| "scanned fuel P fs (entry # entries) =
     (if is_regular_file entry then
        (case files fs (entry_path entry) of
           None \<Rightarrow> scanned fuel P fs entries
         | Some bs \<Rightarrow>
             (case extracted fuel P bs 0 (Value_init P) of
                None \<Rightarrow> None
              | Some rs \<Rightarrow>
                  (case scanned fuel P fs entries of
                     None \<Rightarrow> None
                   | Some rest \<Rightarrow> Some (map (\<lambda>r. (getKey P (fst r), int (snd r))) rs @ rest))))
      else scanned fuel P fs entries)"

text \<open>The index after the pairs of a scan have been added to it, one call each.\<close>

definition m_index_calls ::
  "('k \<rightharpoonup> streamoff list) \<Rightarrow> ('k \<times> streamoff) list \<Rightarrow> ('k \<rightharpoonup> streamoff list)" where
  "m_index_calls idx pairs = fold (\<lambda>r acc. m_index_call acc (fst r) (snd r)) pairs idx"

text \<open>The offsets that a list of pairs holds for one key, in the order of the list.\<close>

definition offsets_of :: "'k \<Rightarrow> ('k \<times> streamoff) list \<Rightarrow> streamoff list" where
  "offsets_of key pairs = map snd (filter (\<lambda>r. fst r = key) pairs)"

text \<open>The path of the last regular file of a listing, \<open>fname\<close> when it has none.\<close>

fun last_regular :: "dir_entry list \<Rightarrow> fpath \<Rightarrow> fpath" where
  "last_regular [] fname = fname"
| "last_regular (entry # entries) fname =
     last_regular entries (if is_regular_file entry then entry_path entry else fname)"

text \<open>
  An extraction policy makes progress when every good extraction consumes at least one
  byte and no more than the stream has left.
\<close>

definition progresses :: "('k, 'v) policies \<Rightarrow> bool" where
  "progresses P =
     (\<forall>bs value. case extractPolicy P bs value of
        (good, value', n) \<Rightarrow> \<not> good \<or> (0 < n \<and> n \<le> length bs))"

text \<open>
  The two policies fit when a record that \<open>insertPolicy\<close> wrote is read back by
  \<open>extractPolicy\<close>: the extraction is good, gives the value written and consumes the
  record's bytes, whatever follows the record and whatever the object held before.
\<close>

definition policies_fit :: "('k, 'v) policies \<Rightarrow> bool" where
  "policies_fit P =
     (\<forall>value rest old.
        extractPolicy P (insertPolicy P value @ rest) old =
          (True, value, length (insertPolicy P value)))"

text \<open>The bytes of a log that holds the given values, and the pairs a scan of it adds.\<close>

definition log_bytes :: "('k, 'v) policies \<Rightarrow> 'v list \<Rightarrow> byte list" where
  "log_bytes P vs = concat (map (insertPolicy P) vs)"

fun ends_of :: "('k, 'v) policies \<Rightarrow> nat \<Rightarrow> 'v list \<Rightarrow> ('k \<times> streamoff) list" where
  "ends_of P pos [] = []"
| "ends_of P pos (v # vs) =
     (getKey P v, int (pos + length (insertPolicy P v)))
       # ends_of P (pos + length (insertPolicy P v)) vs"

section \<open>An instance of the template\<close>

text \<open>
  A value is a key byte and a payload byte. Its record is three bytes: the tag 1, the key
  and the payload. An extraction is good when three bytes are left and the first is the
  tag; otherwise it fails, leaves the object as it was and consumes nothing.
\<close>

type_synonym kv = "byte \<times> byte"

definition kv_extract :: "byte list \<Rightarrow> kv \<Rightarrow> bool \<times> kv \<times> nat" where
  "kv_extract bs old =
     (case bs of
        tag # k # p # rest \<Rightarrow> if tag = 1 then (True, (k, p), 3) else (False, old, 0)
      | _ \<Rightarrow> (False, old, 0))"

definition kv_policies :: "(byte, kv) policies" where
  "kv_policies =
     \<lparr>insertPolicy = (\<lambda>v. [1, fst v, snd v]),
      extractPolicy = kv_extract,
      getKey = fst,
      Value_init = (0, 0),
      Value_as_streamoff = (\<lambda>v. 0)\<rparr>"

text \<open>
  A directory \<open>lake\<close> with the one log file \<open>lake/0.log\<close> of the given content, and an
  empty directory \<open>void\<close>.
\<close>

definition one_log :: "byte list \<Rightarrow> filesystem" where
  "one_log bs =
     \<lparr>files = [''lake/0.log'' \<mapsto> bs],
      dirs = [''lake'' \<mapsto> [\<lparr>entry_path = ''lake/0.log'', is_regular_file = True\<rparr>],
              ''void'' \<mapsto> []]\<rparr>"

text \<open>
  A directory \<open>lake\<close> with two log files and a subdirectory between them. The first file
  holds one record of key 10, the second a record of key 11 and then one of key 10.
\<close>

definition two_logs :: filesystem where
  "two_logs =
     \<lparr>files = [''lake/0.log'' \<mapsto> [1, 10, 1], ''lake/1.log'' \<mapsto> [1, 11, 2, 1, 10, 3]],
      dirs = [''lake'' \<mapsto> [\<lparr>entry_path = ''lake/0.log'', is_regular_file = True\<rparr>,
                          \<lparr>entry_path = ''lake/old'', is_regular_file = False\<rparr>,
                          \<lparr>entry_path = ''lake/1.log'', is_regular_file = True\<rparr>],
              ''lake/old'' \<mapsto> []]\<rparr>"

text \<open>The lake that \<open>DataLake<byte, kv> lake("new.log")\<close> constructs when there is no such file.\<close>

definition lake0 :: "(byte, kv) DataLake" where
  "lake0 = DataLake_init ''new.log''"

section \<open>The loops and the scan\<close>

lemma m_index_calls_Nil: "m_index_calls idx [] = idx"
  by (simp add: m_index_calls_def)

lemma m_index_calls_Cons:
  "m_index_calls idx (r # pairs) = m_index_calls (m_index_call idx (fst r) (snd r)) pairs"
  by (simp add: m_index_calls_def)

lemma m_index_calls_append:
  "m_index_calls idx (xs @ ys) = m_index_calls (m_index_calls idx xs) ys"
  by (simp add: m_index_calls_def)

text \<open>
  What the index holds for one key after the pairs of a scan were added: the key's old
  offsets, then the scan's offsets for the key in the order of the scan; a key the scan
  did not meet is as it was.
\<close>

lemma m_index_calls_key:
  "m_index_calls idx pairs key =
     (if offsets_of key pairs = [] then idx key
      else Some ((case idx key of None \<Rightarrow> [] | Some offsets \<Rightarrow> offsets) @ offsets_of key pairs))"
proof (induction pairs arbitrary: idx)
  case Nil
  then show ?case by (simp add: m_index_calls_Nil offsets_of_def)
next
  case (Cons r pairs)
  show ?case
    by (simp add: m_index_calls_Cons Cons.IH) (simp add: offsets_of_def m_index_call_def)
qed

text \<open>
  When the extractions from a position end within the fuel, the loop of
  \<open>index_directory\<close> returns, and has added one pair for each of them.
\<close>

lemma index_directory_loop_extracted:
  "extracted fuel P bs pos v = Some rs \<Longrightarrow>
   index_directory_loop P bs pos v idx =
     Some (m_index_calls idx (map (\<lambda>r. (getKey P (fst r), int (snd r))) rs))"
proof (induction fuel arbitrary: pos v idx rs)
  case 0
  then show ?case by simp
next
  case (Suc fuel)
  obtain good v' n where e: "extractPolicy P (drop pos bs) v = (good, v', n)"
    by (cases "extractPolicy P (drop pos bs) v") auto
  show ?case
  proof (cases good)
    case False
    with Suc.prems e have "rs = []" by simp
    with False e show ?thesis
      by (subst index_directory_loop.simps) (simp add: m_index_calls_Nil)
  next
    case True
    with Suc.prems e obtain rs' where
      r: "extracted fuel P bs (pos + n) v' = Some rs'" and rs: "rs = (v', pos + n) # rs'"
      by (auto split: option.splits)
    from Suc.IH [OF r] True e rs show ?thesis
      by (subst index_directory_loop.simps) (simp add: m_index_calls_Cons)
  qed
qed

text \<open>The same for the constructor's loop and its map.\<close>

lemma DataLake_loop_extracted:
  "extracted fuel P bs pos v = Some rs \<Longrightarrow>
   DataLake_loop P bs pos v m =
     Some (fold (\<lambda>r acc. map_insert acc (getKey P (fst r)) (fst r)) rs m)"
proof (induction fuel arbitrary: pos v m rs)
  case 0
  then show ?case by simp
next
  case (Suc fuel)
  obtain good v' n where e: "extractPolicy P (drop pos bs) v = (good, v', n)"
    by (cases "extractPolicy P (drop pos bs) v") auto
  show ?case
  proof (cases good)
    case False
    with Suc.prems e have "rs = []" by simp
    with False e show ?thesis
      by (subst DataLake_loop.simps) simp
  next
    case True
    with Suc.prems e obtain rs' where
      r: "extracted fuel P bs (pos + n) v' = Some rs'" and rs: "rs = (v', pos + n) # rs'"
      by (auto split: option.splits)
    from Suc.IH [OF r] True e rs show ?thesis
      by (subst DataLake_loop.simps) simp
  qed
qed

lemma fold_map_insert:
  "fold (\<lambda>r acc. map_insert acc (f r) (g r)) rs m = map_of (map (\<lambda>r. (f r, g r)) rs) ++ m"
proof (induction rs arbitrary: m)
  case Nil
  then show ?case by simp
next
  case (Cons r rs)
  have "fold (\<lambda>r acc. map_insert acc (f r) (g r)) (r # rs) m =
        fold (\<lambda>r acc. map_insert acc (f r) (g r)) rs (map_insert m (f r) (g r))"
    by simp
  also have "\<dots> = map_of (map (\<lambda>r. (f r, g r)) rs) ++ map_insert m (f r) (g r)"
    by (rule Cons.IH)
  also have "\<dots> = map_of (map (\<lambda>r. (f r, g r)) (r # rs)) ++ m"
    by (rule ext) (simp add: map_insert_def map_add_def split: option.splits)
  finally show ?case .
qed

text \<open>
  When the scan of a listing ends within the fuel, the loop over the entries returns: the
  current file is the last regular file of the listing and the index has the scan's pairs
  added. The other members are as they were.
\<close>

lemma index_directory_entries_scanned:
  "scanned fuel P fs entries = Some pairs \<Longrightarrow>
   index_directory_entries P fs entries this =
     Some (this\<lparr>m_filename := last_regular entries (m_filename this),
                m_index := m_index_calls (m_index this) pairs\<rparr>)"
proof (induction entries arbitrary: this pairs)
  case Nil
  then show ?case by (simp add: m_index_calls_Nil)
next
  case (Cons entry entries)
  show ?case
  proof (cases "is_regular_file entry")
    case False
    with Cons show ?thesis by simp
  next
    case True
    show ?thesis
    proof (cases "files fs (entry_path entry)")
      case None
      with True Cons show ?thesis by simp
    next
      case (Some bs)
      with True Cons.prems obtain rs rest where
        r: "extracted fuel P bs 0 (Value_init P) = Some rs" and
        s: "scanned fuel P fs entries = Some rest" and
        p: "pairs = map (\<lambda>r. (getKey P (fst r), int (snd r))) rs @ rest"
        by (auto split: option.splits)
      from True Some index_directory_loop_extracted [OF r] Cons.IH [OF s] p show ?thesis
        by (simp add: m_index_calls_append)
    qed
  qed
qed

lemma index_directory_scanned:
  "dirs fs d = Some entries \<Longrightarrow> scanned fuel P fs entries = Some pairs \<Longrightarrow>
   index_directory P fs d this =
     Some (Inr (this\<lparr>m_directory := d,
                     m_filename := last_regular entries (m_filename this),
                     m_index := m_index_calls (m_index this) pairs\<rparr>))"
  by (simp add: index_directory_def index_directory_entries_scanned)

text \<open>More fuel does not change what was extracted.\<close>

lemma extracted_mono:
  "extracted fuel P bs pos v = Some rs \<Longrightarrow> fuel \<le> fuel' \<Longrightarrow> extracted fuel' P bs pos v = Some rs"
proof (induction fuel arbitrary: fuel' pos v rs)
  case 0
  then show ?case by simp
next
  case (Suc fuel)
  from Suc.prems obtain k where k: "fuel' = Suc k" and le: "fuel \<le> k"
    by (cases fuel') auto
  obtain good v' n where e: "extractPolicy P (drop pos bs) v = (good, v', n)"
    by (cases "extractPolicy P (drop pos bs) v") auto
  show ?case
  proof (cases good)
    case False
    with Suc.prems e k show ?thesis by simp
  next
    case True
    with Suc.prems e obtain rs' where
      r: "extracted fuel P bs (pos + n) v' = Some rs'" and rs: "rs = (v', pos + n) # rs'"
      by (auto split: option.splits)
    from Suc.IH [OF r le] True e rs k show ?thesis by simp
  qed
qed

lemma scanned_mono:
  "scanned fuel P fs entries = Some pairs \<Longrightarrow> fuel \<le> fuel' \<Longrightarrow>
   scanned fuel' P fs entries = Some pairs"
proof (induction entries arbitrary: pairs)
  case Nil
  then show ?case by simp
next
  case (Cons entry entries)
  then show ?case
    by (auto split: if_splits option.splits dest: extracted_mono)
qed

text \<open>
  Conversely, a loop that returns made finitely many extractions: there is fuel for which
  the extractions end.
\<close>

lemma index_directory_loop_returns:
  assumes "index_directory_loop P bs pos v idx = Some idx'"
  shows "\<exists>fuel rs. extracted fuel P bs pos v = Some rs"
proof (rule index_directory_loop.raw_induct
    [of "\<lambda>x y. case x of ((((P, bs), pos), v), idx) \<Rightarrow>
           \<exists>fuel rs. extracted fuel P bs pos v = Some rs" P bs pos v idx idx',
     simplified, OF _ assms])
  fix loop :: "('a, 'b) policies \<Rightarrow> byte list \<Rightarrow> nat \<Rightarrow> 'b \<Rightarrow> ('a \<rightharpoonup> streamoff list)
     \<Rightarrow> ('a \<rightharpoonup> streamoff list) option"
  fix P bs pos v idx idx'
  assume IH: "\<And>P bs pos v idx idx'. loop P bs pos v idx = Some idx' \<Longrightarrow>
           \<exists>fuel rs. extracted fuel P bs pos v = Some rs"
  assume step: "(case extractPolicy P (drop pos bs) v of
        (good, value', n) \<Rightarrow>
          if good then loop P bs (pos + n) value' (m_index_call idx (getKey P value') (int (pos + n)))
          else Some idx) = Some idx'"
  obtain good v' n where e: "extractPolicy P (drop pos bs) v = (good, v', n)"
    by (cases "extractPolicy P (drop pos bs) v") auto
  show "\<exists>fuel rs. extracted fuel P bs pos v = Some rs"
  proof (cases good)
    case False
    with e have "extracted (Suc 0) P bs pos v = Some []" by simp
    then show ?thesis by blast
  next
    case True
    with step e have "loop P bs (pos + n) v' (m_index_call idx (getKey P v') (int (pos + n))) = Some idx'"
      by simp
    from IH [OF this] obtain fuel rs where "extracted fuel P bs (pos + n) v' = Some rs"
      by blast
    with True e have "extracted (Suc fuel) P bs pos v = Some ((v', pos + n) # rs)" by simp
    then show ?thesis by blast
  qed
qed

lemma DataLake_loop_returns:
  assumes "DataLake_loop P bs pos v m = Some m'"
  shows "\<exists>fuel rs. extracted fuel P bs pos v = Some rs"
proof (rule DataLake_loop.raw_induct
    [of "\<lambda>x y. case x of ((((P, bs), pos), v), m) \<Rightarrow>
           \<exists>fuel rs. extracted fuel P bs pos v = Some rs" P bs pos v m m',
     simplified, OF _ assms])
  fix loop :: "('a, 'b) policies \<Rightarrow> byte list \<Rightarrow> nat \<Rightarrow> 'b \<Rightarrow> ('a \<rightharpoonup> 'b) \<Rightarrow> ('a \<rightharpoonup> 'b) option"
  fix P bs pos v m m'
  assume IH: "\<And>P bs pos v m m'. loop P bs pos v m = Some m' \<Longrightarrow>
           \<exists>fuel rs. extracted fuel P bs pos v = Some rs"
  assume step: "(case extractPolicy P (drop pos bs) v of
        (good, value', n) \<Rightarrow>
          if good then loop P bs (pos + n) value' (map_insert m (getKey P value') value')
          else Some m) = Some m'"
  obtain good v' n where e: "extractPolicy P (drop pos bs) v = (good, v', n)"
    by (cases "extractPolicy P (drop pos bs) v") auto
  show "\<exists>fuel rs. extracted fuel P bs pos v = Some rs"
  proof (cases good)
    case False
    with e have "extracted (Suc 0) P bs pos v = Some []" by simp
    then show ?thesis by blast
  next
    case True
    with step e have "loop P bs (pos + n) v' (map_insert m (getKey P v') v') = Some m'"
      by simp
    from IH [OF this] obtain fuel rs where "extracted fuel P bs (pos + n) v' = Some rs"
      by blast
    with True e have "extracted (Suc fuel) P bs pos v = Some ((v', pos + n) # rs)" by simp
    then show ?thesis by blast
  qed
qed

lemma index_directory_entries_returns:
  "index_directory_entries P fs entries this = Some this' \<Longrightarrow>
   \<exists>fuel pairs. scanned fuel P fs entries = Some pairs"
proof (induction entries arbitrary: this)
  case Nil
  then show ?case by simp
next
  case (Cons entry entries)
  show ?case
  proof (cases "is_regular_file entry")
    case False
    with Cons show ?thesis by simp
  next
    case True
    show ?thesis
    proof (cases "files fs (entry_path entry)")
      case None
      with True Cons show ?thesis by simp
    next
      case (Some bs)
      with True Cons.prems obtain idx where
        l: "index_directory_loop P bs 0 (Value_init P) (m_index this) = Some idx" and
        r: "index_directory_entries P fs entries
              (this\<lparr>m_filename := entry_path entry, m_index := idx\<rparr>) = Some this'"
        by (auto split: option.splits)
      from index_directory_loop_returns [OF l] obtain f1 rs where
        e: "extracted f1 P bs 0 (Value_init P) = Some rs" by blast
      from Cons.IH [OF r] obtain f2 rest where
        s: "scanned f2 P fs entries = Some rest" by blast
      have "extracted (max f1 f2) P bs 0 (Value_init P) = Some rs"
        by (rule extracted_mono [OF e]) simp
      moreover have "scanned (max f1 f2) P fs entries = Some rest"
        by (rule scanned_mono [OF s]) simp
      ultimately have "scanned (max f1 f2) P fs (entry # entries) =
          Some (map (\<lambda>r. (getKey P (fst r), int (snd r))) rs @ rest)"
        using True Some by simp
      then show ?thesis by blast
    qed
  qed
qed

lemma index_directory_returns:
  "dirs fs d = Some entries \<Longrightarrow> index_directory P fs d this = Some r \<Longrightarrow>
   \<exists>fuel pairs. scanned fuel P fs entries = Some pairs"
  by (auto simp: index_directory_def split: option.splits dest: index_directory_entries_returns)

text \<open>
  With a policy that makes progress the extractions from a file end, with fuel beyond
  the file's length; so the scan of every listing ends, and \<open>index_directory\<close> returns.
\<close>

lemma extracted_progress:
  "progresses P \<Longrightarrow> length bs - pos < fuel \<Longrightarrow> \<exists>rs. extracted fuel P bs pos v = Some rs"
proof (induction fuel arbitrary: pos v)
  case 0
  then show ?case by simp
next
  case (Suc fuel)
  obtain good v' n where e: "extractPolicy P (drop pos bs) v = (good, v', n)"
    by (cases "extractPolicy P (drop pos bs) v") auto
  show ?case
  proof (cases good)
    case False
    with e show ?thesis by simp
  next
    case True
    from Suc.prems(1) [unfolded progresses_def, rule_format, of "drop pos bs" v] e True have n: "0 < n" "n \<le> length bs - pos" by simp_all
    with Suc.prems(2) have "length bs - (pos + n) < fuel" by arith
    from Suc.IH [OF Suc.prems(1) this] obtain rs where
      "extracted fuel P bs (pos + n) v' = Some rs" by blast
    with e True show ?thesis by simp
  qed
qed

lemma scanned_progress:
  "progresses P \<Longrightarrow> \<exists>fuel pairs. scanned fuel P fs entries = Some pairs"
proof (induction entries)
  case Nil
  then show ?case by simp
next
  case (Cons entry entries)
  then obtain f2 rest where s: "scanned f2 P fs entries = Some rest" by blast
  show ?case
  proof (cases "is_regular_file entry")
    case False
    with s show ?thesis by auto
  next
    case True
    show ?thesis
    proof (cases "files fs (entry_path entry)")
      case None
      with True s show ?thesis by auto
    next
      case (Some bs)
      from extracted_progress [OF Cons.prems, of bs 0 "Suc (length bs)"] obtain rs where
        e: "extracted (Suc (length bs)) P bs 0 (Value_init P) = Some rs" by auto
      have "extracted (max (Suc (length bs)) f2) P bs 0 (Value_init P) = Some rs"
        by (rule extracted_mono [OF e]) simp
      moreover have "scanned (max (Suc (length bs)) f2) P fs entries = Some rest"
        by (rule scanned_mono [OF s]) simp
      ultimately have "scanned (max (Suc (length bs)) f2) P fs (entry # entries) =
          Some (map (\<lambda>r. (getKey P (fst r), int (snd r))) rs @ rest)"
        using True Some by simp
      then show ?thesis by blast
    qed
  qed
qed

lemma index_directory_progress:
  assumes "progresses P" and "dirs fs d = Some entries"
  shows "\<exists>this'. index_directory P fs d this = Some (Inr this')"
proof -
  from scanned_progress [OF assms(1)] obtain fuel pairs where
    "scanned fuel P fs entries = Some pairs" by blast
  from index_directory_scanned [OF assms(2) this] show ?thesis by blast
qed

lemma last_regular_idem: "last_regular entries (last_regular entries fname) = last_regular entries fname"
  by (induction entries arbitrary: fname) simp_all

text \<open>The constructor leaves the index empty and names no current file.\<close>

lemma DataLake_new_m_filename:
  "DataLake_new P fs p = Some this \<Longrightarrow> m_filename this = [] \<and> m_index this = Map.empty"
  by (auto simp: DataLake_new_def DataLake_init_def split: option.splits)

lemma DataLake_new_no_file:
  "files fs p = None \<Longrightarrow> DataLake_new P fs p = Some (DataLake_init p)"
  by (simp add: DataLake_new_def)

text \<open>
  On a lake as the constructor leaves it, \<open>insert\<close> does nothing: \<open>m_filename\<close> is the
  empty path, the output stream does not open, and neither the file system nor the index
  changes. This holds for every policy, file system, path, key and value.
\<close>

lemma insert_after_construction:
  "DataLake_new P fs p = Some this \<Longrightarrow> insert_value P fs this key v = (fs, this)"
  by (simp add: insert_value_def open_app_def DataLake_new_m_filename)

text \<open>
  When the stream does open, the offset that \<open>insert\<close> stores is the converted value: it
  does not depend on the content \<open>bs\<close> of the file, whose length is the offset at which
  the record begins.
\<close>

lemma insert_value_index:
  "open_app fs (m_filename this) = Some bs \<Longrightarrow>
   m_index (snd (insert_value P fs this key v)) key =
     Some ((case m_index this key of None \<Rightarrow> [] | Some offsets \<Rightarrow> offsets)
             @ [Value_as_streamoff P v])"
  by (simp add: insert_value_def m_index_call_def)

text \<open>The instance: its policy makes progress, and a scan of a one-record log.\<close>

lemma kv_progresses: "progresses kv_policies"
  by (auto simp: progresses_def kv_policies_def kv_extract_def split: list.splits)

lemma kv_scan_one:
  "scanned 2 kv_policies (one_log [1, 10, 1]) [\<lparr>entry_path = ''lake/0.log'', is_regular_file = True\<rparr>]
     = Some [(10, 3)]"
  by (simp add: eval_nat_numeral one_log_def kv_policies_def kv_extract_def)

lemma kv_index_one:
  "index_directory kv_policies (one_log [1, 10, 1]) ''lake'' lake0 =
     Some (Inr (lake0\<lparr>m_directory := ''lake'', m_filename := ''lake/0.log'',
                       m_index := [10 \<mapsto> [3]]\<rparr>))"
proof -
  have d: "dirs (one_log [1, 10, 1]) ''lake'' =
     Some [\<lparr>entry_path = ''lake/0.log'', is_regular_file = True\<rparr>]"
    by (simp add: one_log_def)
  show ?thesis
    by (simp add: index_directory_scanned [OF d kv_scan_one] m_index_calls_def m_index_call_def
        lake0_def DataLake_init_def)
qed

text \<open>
  A log that holds the records of the values \<open>vs\<close> and then bytes from which no
  extraction is good: with policies that fit, the loop of \<open>index_directory\<close> returns
  and has added the pair of each of the values, with the position after its record.
\<close>

lemma index_directory_loop_log:
  assumes fit: "policies_fit P" and junk: "\<forall>old. \<not> fst (extractPolicy P junk old)"
  shows "index_directory_loop P (pre @ log_bytes P vs @ junk) (length pre) v idx =
           Some (m_index_calls idx (ends_of P (length pre) vs))"
proof (induction vs arbitrary: pre v idx)
  case Nil
  obtain good v' n where e: "extractPolicy P junk v = (good, v', n)"
    by (cases "extractPolicy P junk v") auto
  with junk [rule_format, of v] have "\<not> good" by simp
  with e show ?case
    by (subst index_directory_loop.simps) (simp add: log_bytes_def m_index_calls_Nil)
next
  case (Cons w vs)
  have b: "pre @ log_bytes P (w # vs) @ junk = (pre @ insertPolicy P w) @ log_bytes P vs @ junk"
    by (simp add: log_bytes_def)
  have e: "extractPolicy P (log_bytes P (w # vs) @ junk) v =
      (True, w, length (insertPolicy P w))"
    using fit by (simp add: policies_fit_def log_bytes_def)
  have "index_directory_loop P (pre @ log_bytes P (w # vs) @ junk) (length pre) v idx =
      index_directory_loop P (pre @ log_bytes P (w # vs) @ junk) (length pre + length (insertPolicy P w)) w
        (m_index_call idx (getKey P w) (int (length pre + length (insertPolicy P w))))"
    by (subst index_directory_loop.simps) (simp add: e)
  also have "\<dots> = Some (m_index_calls (m_index_call idx (getKey P w)
        (int (length pre + length (insertPolicy P w))))
        (ends_of P (length pre + length (insertPolicy P w)) vs))"
    using Cons.IH [of "pre @ insertPolicy P w"] by (simp add: b)
  finally show ?case by (simp add: m_index_calls_Cons)
qed

text \<open>
  \<open>operator[]\<close> in closed form: when the file opens, one object for each offset, read
  at that offset in that file.
\<close>

lemma operator_index_loop_map:
  "operator_index_loop P fs fname offsets values =
     (case files fs fname of
        None \<Rightarrow> values
      | Some bs \<Rightarrow>
          values @ map (\<lambda>offset. fst (snd (extractPolicy P (seekg bs offset) (Value_init P)))) offsets)"
  by (induction offsets arbitrary: "values") (auto split: option.splits prod.splits)

lemma operator_index_map_member:
  "operator_index P fs (lake\<lparr>map_member := m\<rparr>) key = operator_index P fs lake key"
  by (simp add: operator_index_def split: option.splits)

text \<open>The instance once more: its policies fit, and the scans of two more directories.\<close>

lemma kv_fit: "policies_fit kv_policies"
  by (simp add: policies_fit_def kv_policies_def kv_extract_def)

lemma kv_scan_three:
  "scanned 4 kv_policies (one_log [1, 10, 1, 1, 11, 2, 1, 10, 3])
     [\<lparr>entry_path = ''lake/0.log'', is_regular_file = True\<rparr>]
     = Some [(10, 3), (11, 6), (10, 9)]"
  by (simp add: eval_nat_numeral one_log_def kv_policies_def kv_extract_def)

lemma kv_dir_three:
  "dirs (one_log [1, 10, 1, 1, 11, 2, 1, 10, 3]) ''lake'' =
     Some [\<lparr>entry_path = ''lake/0.log'', is_regular_file = True\<rparr>]"
  by (simp add: one_log_def)

lemma kv_index_three:
  "index_directory kv_policies (one_log [1, 10, 1, 1, 11, 2, 1, 10, 3]) ''lake'' lake0 =
     Some (Inr (lake0\<lparr>m_directory := ''lake'', m_filename := ''lake/0.log'',
                       m_index := [10 \<mapsto> [3, 9], 11 \<mapsto> [6]]\<rparr>))"
  by (simp add: index_directory_scanned [OF kv_dir_three kv_scan_three] m_index_calls_def
      m_index_call_def lake0_def DataLake_init_def fun_upd_twist)

lemma kv_read_three:
  "extractPolicy kv_policies (seekg [1, 10, 1, 1, 11, 2, 1, 10, 3] 3) (Value_init kv_policies)
     = (True, (11, 2), 3)"
  "extractPolicy kv_policies (seekg [1, 10, 1, 1, 11, 2, 1, 10, 3] 6) (Value_init kv_policies)
     = (True, (10, 3), 3)"
  "extractPolicy kv_policies (seekg [1, 10, 1, 1, 11, 2, 1, 10, 3] 9) (Value_init kv_policies)
     = (False, (0, 0), 0)"
  by (simp_all add: kv_policies_def kv_extract_def seekg_def)

lemma kv_dir_two:
  "dirs two_logs ''lake'' =
     Some [\<lparr>entry_path = ''lake/0.log'', is_regular_file = True\<rparr>,
           \<lparr>entry_path = ''lake/old'', is_regular_file = False\<rparr>,
           \<lparr>entry_path = ''lake/1.log'', is_regular_file = True\<rparr>]"
  by (simp add: two_logs_def)

lemma kv_scan_two:
  "scanned 3 kv_policies two_logs
     [\<lparr>entry_path = ''lake/0.log'', is_regular_file = True\<rparr>,
      \<lparr>entry_path = ''lake/old'', is_regular_file = False\<rparr>,
      \<lparr>entry_path = ''lake/1.log'', is_regular_file = True\<rparr>] = Some [(10, 3), (11, 3), (10, 6)]"
  by (simp add: eval_nat_numeral two_logs_def kv_policies_def kv_extract_def)

section \<open>insert and operator[]\<close>

text \<open>
  C1. The claim: for every value v, inserting v into an empty lake and then looking up its
  key returns exactly the one-element sequence holding v. The source at the claim's input:
  a lake constructed on the empty log file \<open>lake/0.log\<close>, \<open>insert(10, (10, 1))\<close>, then
  \<open>operator[](10)\<close>. The constructor sets \<open>path\<close> and leaves \<open>m_filename\<close> empty, so the
  stream of \<open>insert\<close> does not open: the file and the index stay as they were and the
  lookup returns the empty vector.
\<close>

theorem insert_into_new_lake_is_lost:
  "DataLake_new kv_policies (one_log []) ''lake/0.log'' = Some (DataLake_init ''lake/0.log'') \<and>
   insert_value kv_policies (one_log []) (DataLake_init ''lake/0.log'') 10 (10, 1) =
     (one_log [], DataLake_init ''lake/0.log'') \<and>
   operator_index kv_policies (one_log []) (DataLake_init ''lake/0.log'') 10 = []"
proof -
  have e: "extracted (Suc 0) kv_policies [] 0 (Value_init kv_policies) = Some []"
    by (simp add: kv_policies_def kv_extract_def)
  have n: "DataLake_new kv_policies (one_log []) ''lake/0.log'' = Some (DataLake_init ''lake/0.log'')"
    by (simp add: DataLake_new_def one_log_def DataLake_loop_extracted [OF e] DataLake_init_def)
  from n insert_after_construction [OF n] show ?thesis
    by (simp add: operator_index_def DataLake_init_def)
qed

text \<open>
  C2. The claim: inserting v1 and then v2 under one key makes the lookup return v1, v2 in
  that order and the latest value be v2. The source at the claim's input: a new lake, the
  values (10, 1) and (10, 3) inserted under the key 10. Both calls leave the lake as it
  was, the lookup returns the empty vector and \<open>getOffset\<close> the offset -1 of a key
  that is not there.
\<close>

theorem two_inserts_into_new_lake_are_lost:
  "DataLake_new kv_policies (one_log []) ''new.log'' = Some lake0 \<and>
   insert_value kv_policies (one_log []) lake0 10 (10, 1) = (one_log [], lake0) \<and>
   insert_value kv_policies (one_log []) lake0 10 (10, 3) = (one_log [], lake0) \<and>
   operator_index kv_policies (one_log []) lake0 10 = [] \<and>
   getOffset lake0 10 = Some (- 1)"
proof -
  have n: "DataLake_new kv_policies (one_log []) ''new.log'' = Some lake0"
    by (simp add: DataLake_new_no_file one_log_def lake0_def)
  from n insert_after_construction [OF n] show ?thesis
    by (simp add: operator_index_def getOffset_def lake0_def DataLake_init_def)
qed

section \<open>The offsets that index_directory stores\<close>

text \<open>
  C3. The claim: every location that the index holds under a key is the offset at which a
  record begins, and decoding there gives a value of that key. The source at a directory
  whose one log file holds the one record of the value (10, 1), bytes 0 to 2:
  \<open>index_directory\<close> stores for the key 10 the offset 3, the position after the record,
  since \<open>in.tellg()\<close> is read after the extraction. The record begins at offset 0, where
  the extraction gives (10, 1); at offset 3 nothing is left, the extraction fails, and
  \<open>operator[](10)\<close> returns the default-constructed object, of key 0.
\<close>

theorem index_directory_stores_end_offsets:
  "index_directory kv_policies (one_log [1, 10, 1]) ''lake'' lake0 =
     Some (Inr (lake0\<lparr>m_directory := ''lake'', m_filename := ''lake/0.log'',
                       m_index := [10 \<mapsto> [3]]\<rparr>)) \<and>
   extractPolicy kv_policies (seekg [1, 10, 1] 0) (Value_init kv_policies) = (True, (10, 1), 3) \<and>
   extractPolicy kv_policies (seekg [1, 10, 1] 3) (Value_init kv_policies) = (False, (0, 0), 0) \<and>
   operator_index kv_policies (one_log [1, 10, 1])
     (lake0\<lparr>m_directory := ''lake'', m_filename := ''lake/0.log'', m_index := [10 \<mapsto> [3]]\<rparr>) 10
     = [(0, 0)]"
proof -
  have a: "extractPolicy kv_policies (seekg [1, 10, 1] 0) (Value_init kv_policies) = (True, (10, 1), 3)"
    by (simp add: kv_policies_def kv_extract_def seekg_def)
  have b: "extractPolicy kv_policies (seekg [1, 10, 1] 3) (Value_init kv_policies) = (False, (0, 0), 0)"
    by (simp add: kv_policies_def kv_extract_def seekg_def)
  have c: "operator_index kv_policies (one_log [1, 10, 1])
     (lake0\<lparr>m_directory := ''lake'', m_filename := ''lake/0.log'', m_index := [10 \<mapsto> [3]]\<rparr>) 10
     = [(0, 0)]"
    by (simp add: operator_index_def one_log_def b)
  from kv_index_one a b c show ?thesis by simp
qed

section \<open>index_directory and the index it finds\<close>

text \<open>
  C4, as the claim states it, fails: \<open>index_directory\<close> does not empty the index. After
  the directory \<open>lake\<close> was indexed the index holds the offset 3 for the key 10; indexing
  the empty directory \<open>void\<close>, whose scan finds no pair, leaves that entry in the index.
\<close>

theorem index_directory_keeps_old_entries:
  "index_directory kv_policies (one_log [1, 10, 1]) ''lake'' lake0 =
     Some (Inr (lake0\<lparr>m_directory := ''lake'', m_filename := ''lake/0.log'',
                       m_index := [10 \<mapsto> [3]]\<rparr>)) \<and>
   dirs (one_log [1, 10, 1]) ''void'' = Some [] \<and>
   scanned 1 kv_policies (one_log [1, 10, 1]) [] = Some [] \<and>
   index_directory kv_policies (one_log [1, 10, 1]) ''void''
       (lake0\<lparr>m_directory := ''lake'', m_filename := ''lake/0.log'', m_index := [10 \<mapsto> [3]]\<rparr>) =
     Some (Inr (lake0\<lparr>m_directory := ''void'', m_filename := ''lake/0.log'',
                       m_index := [10 \<mapsto> [3]]\<rparr>))"
proof -
  have v: "dirs (one_log [1, 10, 1]) ''void'' = Some []"
    by (simp add: one_log_def)
  have j: "index_directory kv_policies (one_log [1, 10, 1]) ''void''
       (lake0\<lparr>m_directory := ''lake'', m_filename := ''lake/0.log'', m_index := [10 \<mapsto> [3]]\<rparr>) =
     Some (Inr (lake0\<lparr>m_directory := ''void'', m_filename := ''lake/0.log'',
                       m_index := [10 \<mapsto> [3]]\<rparr>))"
    by (simp add: index_directory_def v)
  from kv_index_one v j show ?thesis by simp
qed

text \<open>
  C4, amended. \<open>index_directory(d)\<close> adds to the index and removes nothing from it. When
  the scan of the directory's files ends, the call returns normally and every key's list
  is the list it had before the call followed by the offsets that the scan found for the
  key, in the order of the scan (a key the scan did not meet is as it was). The index
  holds exactly the pairs of the scan when it was empty before the call, as it is after
  \<open>clear_index()\<close>.
\<close>

theorem index_directory_appends:
  assumes "dirs fs d = Some entries" and "scanned fuel P fs entries = Some pairs"
  shows "\<exists>this' this''.
           index_directory P fs d this = Some (Inr this') \<and>
           (\<forall>key. m_index this' key =
             (if offsets_of key pairs = [] then m_index this key
              else Some ((case m_index this key of None \<Rightarrow> [] | Some offsets \<Rightarrow> offsets)
                           @ offsets_of key pairs))) \<and>
           index_directory P fs d (clear_index this) = Some (Inr this'') \<and>
           (\<forall>key. m_index this'' key =
             (if offsets_of key pairs = [] then None else Some (offsets_of key pairs)))"
  by (simp add: index_directory_scanned [OF assms] m_index_calls_key clear_index_def)

theorem index_directory_appends_witness:
  "dirs two_logs ''lake'' =
     Some [\<lparr>entry_path = ''lake/0.log'', is_regular_file = True\<rparr>,
           \<lparr>entry_path = ''lake/old'', is_regular_file = False\<rparr>,
           \<lparr>entry_path = ''lake/1.log'', is_regular_file = True\<rparr>] \<and>
   scanned 3 kv_policies two_logs
     [\<lparr>entry_path = ''lake/0.log'', is_regular_file = True\<rparr>,
      \<lparr>entry_path = ''lake/old'', is_regular_file = False\<rparr>,
      \<lparr>entry_path = ''lake/1.log'', is_regular_file = True\<rparr>] = Some [(10, 3), (11, 3), (10, 6)] \<and>
   (\<exists>this' this''.
      index_directory kv_policies two_logs ''lake'' (lake0\<lparr>m_index := [10 \<mapsto> [42]]\<rparr>)
        = Some (Inr this') \<and>
      m_index this' 10 = Some [42, 3, 6] \<and> m_index this' 11 = Some [3] \<and>
      index_directory kv_policies two_logs ''lake'' (clear_index (lake0\<lparr>m_index := [10 \<mapsto> [42]]\<rparr>))
        = Some (Inr this'') \<and>
      m_index this'' 10 = Some [3, 6] \<and> m_index this'' 11 = Some [3])"
proof -
  have d: "dirs two_logs ''lake'' =
     Some [\<lparr>entry_path = ''lake/0.log'', is_regular_file = True\<rparr>,
           \<lparr>entry_path = ''lake/old'', is_regular_file = False\<rparr>,
           \<lparr>entry_path = ''lake/1.log'', is_regular_file = True\<rparr>]"
    by (simp add: two_logs_def)
  have s: "scanned 3 kv_policies two_logs
     [\<lparr>entry_path = ''lake/0.log'', is_regular_file = True\<rparr>,
      \<lparr>entry_path = ''lake/old'', is_regular_file = False\<rparr>,
      \<lparr>entry_path = ''lake/1.log'', is_regular_file = True\<rparr>] = Some [(10, 3), (11, 3), (10, 6)]"
    by (simp add: eval_nat_numeral two_logs_def kv_policies_def kv_extract_def)
  from index_directory_appends [OF d s, of "lake0\<lparr>m_index := [10 \<mapsto> [42]]\<rparr>"]
  obtain this' this'' where
    r: "index_directory kv_policies two_logs ''lake'' (lake0\<lparr>m_index := [10 \<mapsto> [42]]\<rparr>)
          = Some (Inr this')"
       "\<forall>key. m_index this' key =
          (if offsets_of key [(10, 3), (11, 3), (10, 6)] = []
           then m_index (lake0\<lparr>m_index := [10 \<mapsto> [42]]\<rparr>) key
           else Some ((case m_index (lake0\<lparr>m_index := [10 \<mapsto> [42]]\<rparr>) key of
                         None \<Rightarrow> [] | Some offsets \<Rightarrow> offsets)
                      @ offsets_of key [(10, 3), (11, 3), (10, 6)]))"
       "index_directory kv_policies two_logs ''lake'' (clear_index (lake0\<lparr>m_index := [10 \<mapsto> [42]]\<rparr>))
          = Some (Inr this'')"
       "\<forall>key. m_index this'' key =
          (if offsets_of key [(10, 3), (11, 3), (10, 6)] = [] then None
           else Some (offsets_of key [(10, 3), (11, 3), (10, 6)]))"
    by blast
  from r(2) have a: "m_index this' 10 = Some [42, 3, 6]" "m_index this' 11 = Some [3]"
    by (simp_all add: offsets_of_def)
  from r(4) have b: "m_index this'' 10 = Some [3, 6]" "m_index this'' 11 = Some [3]"
    by (simp_all add: offsets_of_def)
  from d s r(1) r(3) a b show ?thesis by blast
qed

text \<open>
  C5, as the claim states it, fails for \<open>index_directory\<close>: a second run on the same
  files adds every pair of the scan once more. The directory \<open>lake\<close> holds one log with
  the records of (10, 1), (11, 2) and (10, 3). After one run the lookup of the key 11
  returns one object, after two runs it returns two.
\<close>

theorem index_directory_twice_differs:
  "index_directory kv_policies (one_log [1, 10, 1, 1, 11, 2, 1, 10, 3]) ''lake'' lake0 =
     Some (Inr (lake0\<lparr>m_directory := ''lake'', m_filename := ''lake/0.log'',
                       m_index := [10 \<mapsto> [3, 9], 11 \<mapsto> [6]]\<rparr>)) \<and>
   index_directory kv_policies (one_log [1, 10, 1, 1, 11, 2, 1, 10, 3]) ''lake''
       (lake0\<lparr>m_directory := ''lake'', m_filename := ''lake/0.log'',
              m_index := [10 \<mapsto> [3, 9], 11 \<mapsto> [6]]\<rparr>) =
     Some (Inr (lake0\<lparr>m_directory := ''lake'', m_filename := ''lake/0.log'',
                       m_index := [10 \<mapsto> [3, 9, 3, 9], 11 \<mapsto> [6, 6]]\<rparr>)) \<and>
   operator_index kv_policies (one_log [1, 10, 1, 1, 11, 2, 1, 10, 3])
       (lake0\<lparr>m_directory := ''lake'', m_filename := ''lake/0.log'',
              m_index := [10 \<mapsto> [3, 9], 11 \<mapsto> [6]]\<rparr>) 11 = [(10, 3)] \<and>
   operator_index kv_policies (one_log [1, 10, 1, 1, 11, 2, 1, 10, 3])
       (lake0\<lparr>m_directory := ''lake'', m_filename := ''lake/0.log'',
              m_index := [10 \<mapsto> [3, 9, 3, 9], 11 \<mapsto> [6, 6]]\<rparr>) 11 = [(10, 3), (10, 3)]"
proof -
  have t: "index_directory kv_policies (one_log [1, 10, 1, 1, 11, 2, 1, 10, 3]) ''lake''
       (lake0\<lparr>m_directory := ''lake'', m_filename := ''lake/0.log'',
              m_index := [10 \<mapsto> [3, 9], 11 \<mapsto> [6]]\<rparr>) =
     Some (Inr (lake0\<lparr>m_directory := ''lake'', m_filename := ''lake/0.log'',
                       m_index := [10 \<mapsto> [3, 9, 3, 9], 11 \<mapsto> [6, 6]]\<rparr>))"
    by (simp add: index_directory_scanned [OF kv_dir_three kv_scan_three] m_index_calls_def
      m_index_call_def lake0_def DataLake_init_def fun_upd_twist)
  have a: "operator_index kv_policies (one_log [1, 10, 1, 1, 11, 2, 1, 10, 3])
       (lake0\<lparr>m_directory := ''lake'', m_filename := ''lake/0.log'',
              m_index := [10 \<mapsto> [3, 9], 11 \<mapsto> [6]]\<rparr>) 11 = [(10, 3)]"
    by (simp add: operator_index_def one_log_def kv_read_three)
  have b: "operator_index kv_policies (one_log [1, 10, 1, 1, 11, 2, 1, 10, 3])
       (lake0\<lparr>m_directory := ''lake'', m_filename := ''lake/0.log'',
              m_index := [10 \<mapsto> [3, 9, 3, 9], 11 \<mapsto> [6, 6]]\<rparr>) 11 = [(10, 3), (10, 3)]"
    by (simp add: operator_index_def one_log_def kv_read_three)
  from kv_index_three t a b show ?thesis by simp
qed

text \<open>
  C5, amended. \<open>clear_index()\<close> followed by \<open>index_directory(d)\<close> is idempotent: when
  the pair of calls has returned a lake, the same pair of calls on that lake, with the
  file system unchanged, returns and gives the very same lake (index, current file,
  directory and all other members), hence the same results of \<open>operator[]\<close> and
  \<open>getOffset\<close> for every key.
\<close>

theorem clear_index_index_directory_idempotent:
  assumes "index_directory P fs d (clear_index this) = Some (Inr this')"
  shows "index_directory P fs d (clear_index this') = Some (Inr this')"
proof -
  from assms obtain entries where d: "dirs fs d = Some entries"
    by (auto simp: index_directory_def split: option.splits)
  from index_directory_returns [OF d assms] obtain fuel pairs where
    s: "scanned fuel P fs entries = Some pairs" by blast
  from assms index_directory_scanned [OF d s, of "clear_index this"]
  have t: "this' = (clear_index this)\<lparr>m_directory := d,
      m_filename := last_regular entries (m_filename (clear_index this)),
      m_index := m_index_calls (m_index (clear_index this)) pairs\<rparr>"
    by simp
  show ?thesis
    by (subst (2) t, subst t) (simp add: index_directory_scanned [OF d s] clear_index_def last_regular_idem)
qed

theorem clear_index_index_directory_idempotent_witness:
  "index_directory kv_policies (one_log [1, 10, 1, 1, 11, 2, 1, 10, 3]) ''lake'' (clear_index lake0) =
     Some (Inr (lake0\<lparr>m_directory := ''lake'', m_filename := ''lake/0.log'',
                       m_index := [10 \<mapsto> [3, 9], 11 \<mapsto> [6]]\<rparr>)) \<and>
   index_directory kv_policies (one_log [1, 10, 1, 1, 11, 2, 1, 10, 3]) ''lake''
       (clear_index (lake0\<lparr>m_directory := ''lake'', m_filename := ''lake/0.log'',
                           m_index := [10 \<mapsto> [3, 9], 11 \<mapsto> [6]]\<rparr>)) =
     Some (Inr (lake0\<lparr>m_directory := ''lake'', m_filename := ''lake/0.log'',
                       m_index := [10 \<mapsto> [3, 9], 11 \<mapsto> [6]]\<rparr>))"
proof -
  have c: "clear_index lake0 = lake0"
    by (simp add: clear_index_def lake0_def DataLake_init_def)
  have h: "index_directory kv_policies (one_log [1, 10, 1, 1, 11, 2, 1, 10, 3]) ''lake'' (clear_index lake0) =
     Some (Inr (lake0\<lparr>m_directory := ''lake'', m_filename := ''lake/0.log'',
                       m_index := [10 \<mapsto> [3, 9], 11 \<mapsto> [6]]\<rparr>))"
    by (simp only: c kv_index_three)
  from h clear_index_index_directory_idempotent [OF h] show ?thesis by simp
qed

section \<open>remove\<close>

text \<open>
  C6. The claim: after \<open>remove(k)\<close> the lookup of k is empty, and after a rebuild over
  the unchanged files it returns the full version history of k. The source at the
  directory of the spec's scenario, one log with the records of (10, 1), (11, 2) and
  (10, 3): after \<open>remove(10)\<close> the lookup of 10 is empty, as claimed. After
  \<open>index_directory\<close>, run on the index as it is or after \<open>clear_index()\<close>, the key 10 is
  in the index again with two offsets, but these are 3 and 9, the positions after its two
  records, and the lookup returns (11, 2), the record that follows the first one, and the
  default-constructed object (0, 0), not the history (10, 1), (10, 3).
\<close>

theorem remove_then_index_directory:
  "index_directory kv_policies (one_log [1, 10, 1, 1, 11, 2, 1, 10, 3]) ''lake'' lake0 =
     Some (Inr (lake0\<lparr>m_directory := ''lake'', m_filename := ''lake/0.log'',
                       m_index := [10 \<mapsto> [3, 9], 11 \<mapsto> [6]]\<rparr>)) \<and>
   remove_key (lake0\<lparr>m_directory := ''lake'', m_filename := ''lake/0.log'',
                     m_index := [10 \<mapsto> [3, 9], 11 \<mapsto> [6]]\<rparr>) 10 =
     lake0\<lparr>m_directory := ''lake'', m_filename := ''lake/0.log'', m_index := [11 \<mapsto> [6]]\<rparr> \<and>
   operator_index kv_policies (one_log [1, 10, 1, 1, 11, 2, 1, 10, 3])
     (lake0\<lparr>m_directory := ''lake'', m_filename := ''lake/0.log'', m_index := [11 \<mapsto> [6]]\<rparr>) 10 = [] \<and>
   index_directory kv_policies (one_log [1, 10, 1, 1, 11, 2, 1, 10, 3]) ''lake''
     (lake0\<lparr>m_directory := ''lake'', m_filename := ''lake/0.log'', m_index := [11 \<mapsto> [6]]\<rparr>) =
     Some (Inr (lake0\<lparr>m_directory := ''lake'', m_filename := ''lake/0.log'',
                       m_index := [10 \<mapsto> [3, 9], 11 \<mapsto> [6, 6]]\<rparr>)) \<and>
   operator_index kv_policies (one_log [1, 10, 1, 1, 11, 2, 1, 10, 3])
     (lake0\<lparr>m_directory := ''lake'', m_filename := ''lake/0.log'',
            m_index := [10 \<mapsto> [3, 9], 11 \<mapsto> [6, 6]]\<rparr>) 10 = [(11, 2), (0, 0)] \<and>
   index_directory kv_policies (one_log [1, 10, 1, 1, 11, 2, 1, 10, 3]) ''lake''
     (clear_index (lake0\<lparr>m_directory := ''lake'', m_filename := ''lake/0.log'', m_index := [11 \<mapsto> [6]]\<rparr>)) =
     Some (Inr (lake0\<lparr>m_directory := ''lake'', m_filename := ''lake/0.log'',
                       m_index := [10 \<mapsto> [3, 9], 11 \<mapsto> [6]]\<rparr>)) \<and>
   operator_index kv_policies (one_log [1, 10, 1, 1, 11, 2, 1, 10, 3])
     (lake0\<lparr>m_directory := ''lake'', m_filename := ''lake/0.log'',
            m_index := [10 \<mapsto> [3, 9], 11 \<mapsto> [6]]\<rparr>) 10 = [(11, 2), (0, 0)]"
proof -
  have r: "remove_key (lake0\<lparr>m_directory := ''lake'', m_filename := ''lake/0.log'',
                     m_index := [10 \<mapsto> [3, 9], 11 \<mapsto> [6]]\<rparr>) 10 =
     lake0\<lparr>m_directory := ''lake'', m_filename := ''lake/0.log'', m_index := [11 \<mapsto> [6]]\<rparr>"
    by (simp add: remove_key_def fun_upd_twist)
  have e: "operator_index kv_policies (one_log [1, 10, 1, 1, 11, 2, 1, 10, 3])
     (lake0\<lparr>m_directory := ''lake'', m_filename := ''lake/0.log'', m_index := [11 \<mapsto> [6]]\<rparr>) 10 = []"
    by (simp add: operator_index_def)
  have i: "index_directory kv_policies (one_log [1, 10, 1, 1, 11, 2, 1, 10, 3]) ''lake''
     (lake0\<lparr>m_directory := ''lake'', m_filename := ''lake/0.log'', m_index := [11 \<mapsto> [6]]\<rparr>) =
     Some (Inr (lake0\<lparr>m_directory := ''lake'', m_filename := ''lake/0.log'',
                       m_index := [10 \<mapsto> [3, 9], 11 \<mapsto> [6, 6]]\<rparr>))"
    by (simp add: index_directory_scanned [OF kv_dir_three kv_scan_three] m_index_calls_def
      m_index_call_def fun_upd_twist)
  have l: "operator_index kv_policies (one_log [1, 10, 1, 1, 11, 2, 1, 10, 3])
     (lake0\<lparr>m_directory := ''lake'', m_filename := ''lake/0.log'',
            m_index := [10 \<mapsto> [3, 9], 11 \<mapsto> [6, 6]]\<rparr>) 10 = [(11, 2), (0, 0)]"
    by (simp add: operator_index_def one_log_def kv_read_three)
  have i': "index_directory kv_policies (one_log [1, 10, 1, 1, 11, 2, 1, 10, 3]) ''lake''
     (clear_index (lake0\<lparr>m_directory := ''lake'', m_filename := ''lake/0.log'', m_index := [11 \<mapsto> [6]]\<rparr>)) =
     Some (Inr (lake0\<lparr>m_directory := ''lake'', m_filename := ''lake/0.log'',
                       m_index := [10 \<mapsto> [3, 9], 11 \<mapsto> [6]]\<rparr>))"
    by (simp add: index_directory_scanned [OF kv_dir_three kv_scan_three] m_index_calls_def
      m_index_call_def clear_index_def fun_upd_twist)
  have l': "operator_index kv_policies (one_log [1, 10, 1, 1, 11, 2, 1, 10, 3])
     (lake0\<lparr>m_directory := ''lake'', m_filename := ''lake/0.log'',
            m_index := [10 \<mapsto> [3, 9], 11 \<mapsto> [6]]\<rparr>) 10 = [(11, 2), (0, 0)]"
    by (simp add: operator_index_def one_log_def kv_read_three)
  from kv_index_three r e i l i' l' show ?thesis by simp
qed

section \<open>Extractions that fail\<close>

text \<open>
  C7, as the claim states it, fails in its second half: a record that cannot be decoded in
  the interior of a file does not make \<open>index_directory\<close> fail. The log holds the
  record of (10, 1), three bytes that are no record, and the record of (11, 2): the call
  returns normally, with the first record indexed and the rest of the file not read.
\<close>

theorem interior_failure_is_no_error:
  "index_directory kv_policies (one_log [1, 10, 1, 0, 0, 0, 1, 11, 2]) ''lake'' lake0 =
     Some (Inr (lake0\<lparr>m_directory := ''lake'', m_filename := ''lake/0.log'',
                       m_index := [10 \<mapsto> [3]]\<rparr>))"
proof -
  have d: "dirs (one_log [1, 10, 1, 0, 0, 0, 1, 11, 2]) ''lake'' =
     Some [\<lparr>entry_path = ''lake/0.log'', is_regular_file = True\<rparr>]"
    by (simp add: one_log_def)
  have s: "scanned 2 kv_policies (one_log [1, 10, 1, 0, 0, 0, 1, 11, 2])
     [\<lparr>entry_path = ''lake/0.log'', is_regular_file = True\<rparr>] = Some [(10, 3)]"
    by (simp add: eval_nat_numeral one_log_def kv_policies_def kv_extract_def)
  show ?thesis
    by (simp add: index_directory_scanned [OF d s] m_index_calls_def m_index_call_def
        lake0_def DataLake_init_def)
qed

text \<open>
  C7, amended. In \<open>index_directory\<close> an extraction that fails ends the scan of its
  file without an error, wherever in the file it happens. For policies that fit, a file
  that holds the records of the values \<open>vs\<close> followed by bytes \<open>junk\<close> from which no
  extraction is good (nothing, a truncated record, or damaged bytes with further records
  behind them) adds one index entry per value of \<open>vs\<close>, under the value's key, and
  nothing for what follows; the call then goes on with the remaining entries of the
  directory as after any other file, and returns normally when they do.
\<close>

theorem decode_failure_ends_the_file:
  assumes "policies_fit P"
    and "\<forall>old. \<not> fst (extractPolicy P junk old)"
    and "dirs fs d = Some (\<lparr>entry_path = f, is_regular_file = True\<rparr> # entries)"
    and "files fs f = Some (log_bytes P vs @ junk)"
  shows "index_directory P fs d this =
           (case index_directory_entries P fs entries
                   (this\<lparr>m_directory := d, m_filename := f,
                          m_index := m_index_calls (m_index this) (ends_of P 0 vs)\<rparr>) of
              None \<Rightarrow> None
            | Some this' \<Rightarrow> Some (Inr this'))"
  using index_directory_loop_log [OF assms(1,2), of "[]" vs "Value_init P" "m_index this"] assms(3,4)
  by (simp add: index_directory_def)

theorem decode_failure_ends_the_file_witness:
  "policies_fit kv_policies \<and>
   (\<forall>old. \<not> fst (extractPolicy kv_policies [0, 0, 0, 1, 11, 2] old)) \<and>
   dirs (one_log [1, 10, 1, 0, 0, 0, 1, 11, 2]) ''lake'' =
     Some [\<lparr>entry_path = ''lake/0.log'', is_regular_file = True\<rparr>] \<and>
   files (one_log [1, 10, 1, 0, 0, 0, 1, 11, 2]) ''lake/0.log'' =
     Some (log_bytes kv_policies [(10, 1)] @ [0, 0, 0, 1, 11, 2]) \<and>
   index_directory kv_policies (one_log [1, 10, 1, 0, 0, 0, 1, 11, 2]) ''lake'' lake0 =
     Some (Inr (lake0\<lparr>m_directory := ''lake'', m_filename := ''lake/0.log'',
                       m_index := [10 \<mapsto> [3]]\<rparr>))"
proof -
  have j: "\<forall>old. \<not> fst (extractPolicy kv_policies [0, 0, 0, 1, 11, 2] old)"
    by (simp add: kv_policies_def kv_extract_def)
  have d: "dirs (one_log [1, 10, 1, 0, 0, 0, 1, 11, 2]) ''lake'' =
     Some [\<lparr>entry_path = ''lake/0.log'', is_regular_file = True\<rparr>]"
    by (simp add: one_log_def)
  have f: "files (one_log [1, 10, 1, 0, 0, 0, 1, 11, 2]) ''lake/0.log'' =
     Some (log_bytes kv_policies [(10, 1)] @ [0, 0, 0, 1, 11, 2])"
    by (simp add: one_log_def log_bytes_def kv_policies_def)
  have m: "m_index_calls (m_index lake0)
      [(getKey kv_policies (10, 1), int (length (insertPolicy kv_policies (10, 1))))] = [10 \<mapsto> [3]]"
    by (simp add: m_index_calls_def m_index_call_def lake0_def DataLake_init_def kv_policies_def)
  from decode_failure_ends_the_file [OF kv_fit j d f, of lake0] kv_fit j d f show ?thesis
    by (simp add: m)
qed

section \<open>Keys that are not in the index\<close>

text \<open>
  C8. A key that is not in the index is not an error. For every lake and every key that
  the index does not hold, \<open>operator[]\<close> returns the empty vector, and \<open>getOffset\<close>, the
  source's lookup of the latest location, returns the offset -1 that stands for "absent".
  Neither has a failing branch: \<open>operator[]\<close> is a total function to lists, and
  \<open>getOffset\<close> does not reach \<open>back()\<close> of an empty vector.
\<close>

theorem missing_key_is_not_an_error:
  "m_index this key = None \<Longrightarrow>
   operator_index P fs this key = [] \<and> getOffset this key = Some (- 1)"
  by (simp add: operator_index_def getOffset_def)

theorem missing_key_is_not_an_error_witness:
  "m_index lake0 (11 :: byte) = None \<and>
   operator_index kv_policies (one_log [1, 10, 1]) lake0 11 = [] \<and>
   getOffset lake0 11 = Some (- 1)"
proof -
  have h: "m_index lake0 (11 :: byte) = None"
    by (simp add: lake0_def DataLake_init_def)
  from h missing_key_is_not_an_error [OF h, of kv_policies "one_log [1, 10, 1]"]
  show ?thesis by simp
qed

section \<open>The file that operator[] reads\<close>

text \<open>
  C9. After \<open>index_directory\<close> has returned, \<open>m_filename\<close> is the last regular file of
  the directory's enumeration (the file it was before, if the directory has none), and
  \<open>operator[]\<close> reads every offset of every key in that one file: its result is the
  objects extracted at the key's offsets from the bytes of that file, whichever file the
  scan found the offset in. \<open>insert\<close> leaves \<open>m_filename\<close> as it is and changes no other
  file.
\<close>

theorem operator_index_reads_m_filename:
  assumes "dirs fs d = Some entries" and "index_directory P fs d this = Some (Inr this')"
  shows "m_filename this' = last_regular entries (m_filename this) \<and>
         (\<forall>key. operator_index P fs this' key =
            (case m_index this' key of
               None \<Rightarrow> []
             | Some offsets \<Rightarrow>
                 (case files fs (last_regular entries (m_filename this)) of
                    None \<Rightarrow> []
                  | Some bs \<Rightarrow>
                      map (\<lambda>offset. fst (snd (extractPolicy P (seekg bs offset) (Value_init P))))
                        offsets))) \<and>
         (\<forall>key v. m_filename (snd (insert_value P fs this' key v)) = m_filename this' \<and>
            (\<forall>p. p = m_filename this' \<or> files (fst (insert_value P fs this' key v)) p = files fs p))"
proof -
  from index_directory_returns [OF assms] obtain fuel pairs where
    s: "scanned fuel P fs entries = Some pairs" by blast
  from assms(2) index_directory_scanned [OF assms(1) s, of this]
  have t: "this' = this\<lparr>m_directory := d,
      m_filename := last_regular entries (m_filename this),
      m_index := m_index_calls (m_index this) pairs\<rparr>"
    by simp
  then have m: "m_filename this' = last_regular entries (m_filename this)" by simp
  have a: "\<forall>key. operator_index P fs this' key =
            (case m_index this' key of
               None \<Rightarrow> []
             | Some offsets \<Rightarrow>
                 (case files fs (last_regular entries (m_filename this)) of
                    None \<Rightarrow> []
                  | Some bs \<Rightarrow>
                      map (\<lambda>offset. fst (snd (extractPolicy P (seekg bs offset) (Value_init P))))
                        offsets))"
    by (simp add: operator_index_def operator_index_loop_map m split: option.splits)
  have b: "\<forall>key v. m_filename (snd (insert_value P fs this' key v)) = m_filename this' \<and>
            (\<forall>p. p = m_filename this' \<or> files (fst (insert_value P fs this' key v)) p = files fs p)"
    by (simp add: insert_value_def split: option.splits)
  from m a b show ?thesis by blast
qed

theorem operator_index_reads_m_filename_witness:
  "dirs two_logs ''lake'' =
     Some [\<lparr>entry_path = ''lake/0.log'', is_regular_file = True\<rparr>,
           \<lparr>entry_path = ''lake/old'', is_regular_file = False\<rparr>,
           \<lparr>entry_path = ''lake/1.log'', is_regular_file = True\<rparr>] \<and>
   index_directory kv_policies two_logs ''lake'' lake0 =
     Some (Inr (lake0\<lparr>m_directory := ''lake'', m_filename := ''lake/1.log'',
                       m_index := [10 \<mapsto> [3, 6], 11 \<mapsto> [3]]\<rparr>)) \<and>
   m_filename (lake0\<lparr>m_directory := ''lake'', m_filename := ''lake/1.log'',
                     m_index := [10 \<mapsto> [3, 6], 11 \<mapsto> [3]]\<rparr>) = ''lake/1.log'' \<and>
   operator_index kv_policies two_logs
     (lake0\<lparr>m_directory := ''lake'', m_filename := ''lake/1.log'',
            m_index := [10 \<mapsto> [3, 6], 11 \<mapsto> [3]]\<rparr>) 10 = [(10, 3), (0, 0)] \<and>
   operator_index kv_policies two_logs
     (lake0\<lparr>m_directory := ''lake'', m_filename := ''lake/1.log'',
            m_index := [10 \<mapsto> [3, 6], 11 \<mapsto> [3]]\<rparr>) 11 = [(10, 3)]"
proof -
  have i: "index_directory kv_policies two_logs ''lake'' lake0 =
     Some (Inr (lake0\<lparr>m_directory := ''lake'', m_filename := ''lake/1.log'',
                       m_index := [10 \<mapsto> [3, 6], 11 \<mapsto> [3]]\<rparr>))"
    by (simp add: index_directory_scanned [OF kv_dir_two kv_scan_two] m_index_calls_def
        m_index_call_def lake0_def DataLake_init_def fun_upd_twist)
  have f: "files two_logs (last_regular
      [\<lparr>entry_path = ''lake/0.log'', is_regular_file = True\<rparr>,
       \<lparr>entry_path = ''lake/old'', is_regular_file = False\<rparr>,
       \<lparr>entry_path = ''lake/1.log'', is_regular_file = True\<rparr>] (m_filename lake0))
      = Some [1, 11, 2, 1, 10, 3]"
    by (simp add: two_logs_def)
  have r: "extractPolicy kv_policies (seekg [1, 11, 2, 1, 10, 3] 3) (Value_init kv_policies)
             = (True, (10, 3), 3)"
    "extractPolicy kv_policies (seekg [1, 11, 2, 1, 10, 3] 6) (Value_init kv_policies)
             = (False, (0, 0), 0)"
    by (simp_all add: kv_policies_def kv_extract_def seekg_def)
  from operator_index_reads_m_filename [OF kv_dir_two i]
  have a: "\<forall>key. operator_index kv_policies two_logs
      (lake0\<lparr>m_directory := ''lake'', m_filename := ''lake/1.log'',
             m_index := [10 \<mapsto> [3, 6], 11 \<mapsto> [3]]\<rparr>) key =
      (case m_index (lake0\<lparr>m_directory := ''lake'', m_filename := ''lake/1.log'',
             m_index := [10 \<mapsto> [3, 6], 11 \<mapsto> [3]]\<rparr>) key of
         None \<Rightarrow> []
       | Some offsets \<Rightarrow>
           map (\<lambda>offset. fst (snd (extractPolicy kv_policies
                 (seekg [1, 11, 2, 1, 10, 3] offset) (Value_init kv_policies)))) offsets)"
    by (simp only: f option.case) blast
  from a [rule_format, of 10] a [rule_format, of 11] kv_dir_two i show ?thesis
    by (simp add: r)
qed

section \<open>The constructor\<close>

text \<open>
  C10. When the file at the constructor's path opens and the extractions from its start
  end, the constructor returns a lake whose map holds, for each key, the first value
  extracted with that key, and whose index is empty: \<open>operator[]\<close> returns the empty
  vector for every key, on every file system. The map is not read by \<open>operator[]\<close> or
  \<open>getOffset\<close>: both give the same result on a lake whatever its map is.
\<close>

theorem constructor_fills_only_the_map:
  assumes "files fs p = Some bs" and "extracted fuel P bs 0 (Value_init P) = Some rs"
  shows "\<exists>this. DataLake_new P fs p = Some this \<and>
           map_member this = map_of (map (\<lambda>r. (getKey P (fst r), fst r)) rs) \<and>
           m_index this = Map.empty \<and>
           (\<forall>fs' key. operator_index P fs' this key = []) \<and>
           (\<forall>fs' lake m key.
              operator_index P fs' (lake\<lparr>map_member := m\<rparr>) key = operator_index P fs' lake key \<and>
              getOffset (lake\<lparr>map_member := m\<rparr>) key = getOffset lake key)"
proof -
  have n: "DataLake_new P fs p =
      Some ((DataLake_init p)\<lparr>map_member := map_of (map (\<lambda>r. (getKey P (fst r), fst r)) rs)\<rparr>)"
    by (simp add: DataLake_new_def assms(1) DataLake_loop_extracted [OF assms(2)] fold_map_insert)
  show ?thesis
    by (simp add: n operator_index_map_member getOffset_def)
      (simp add: operator_index_def DataLake_init_def)
qed

theorem constructor_fills_only_the_map_witness:
  "files (one_log [1, 10, 1, 1, 11, 2, 1, 10, 3]) ''lake/0.log'' = Some [1, 10, 1, 1, 11, 2, 1, 10, 3] \<and>
   extracted 4 kv_policies [1, 10, 1, 1, 11, 2, 1, 10, 3] 0 (Value_init kv_policies) =
     Some [((10, 1), 3), ((11, 2), 6), ((10, 3), 9)] \<and>
   (\<exists>this. DataLake_new kv_policies (one_log [1, 10, 1, 1, 11, 2, 1, 10, 3]) ''lake/0.log'' = Some this \<and>
      map_member this 10 = Some (10, 1) \<and> map_member this 11 = Some (11, 2) \<and>
      map_member this 12 = None \<and> m_index this = Map.empty \<and>
      operator_index kv_policies (one_log [1, 10, 1, 1, 11, 2, 1, 10, 3]) this 10 = [])"
proof -
  have f: "files (one_log [1, 10, 1, 1, 11, 2, 1, 10, 3]) ''lake/0.log'' =
      Some [1, 10, 1, 1, 11, 2, 1, 10, 3]"
    by (simp add: one_log_def)
  have e: "extracted 4 kv_policies [1, 10, 1, 1, 11, 2, 1, 10, 3] 0 (Value_init kv_policies) =
     Some [((10, 1), 3), ((11, 2), 6), ((10, 3), 9)]"
    by (simp add: eval_nat_numeral kv_policies_def kv_extract_def)
  from constructor_fills_only_the_map [OF f e] obtain this where
    t: "DataLake_new kv_policies (one_log [1, 10, 1, 1, 11, 2, 1, 10, 3]) ''lake/0.log'' = Some this"
       "map_member this = map_of (map (\<lambda>r. (getKey kv_policies (fst r), fst r))
          [((10, 1), 3 :: nat), ((11, 2), 6), ((10, 3), 9)])"
       "m_index this = Map.empty"
       "\<forall>fs' key. operator_index kv_policies fs' this key = []"
    by blast
  from t(2) have m: "map_member this 10 = Some (10, 1)" "map_member this 11 = Some (11, 2)"
      "map_member this 12 = None"
    by (simp_all add: kv_policies_def)
  from f e t(1) t(3) t(4) m show ?thesis by blast
qed

end
